theory Spec2Isabelle
  imports Main "HOL-Library.AList"
begin

section \<open>Python values used by \<open>pipeline19.py\<close>\<close>

text \<open>
  Text is a \<open>string\<close> (a list of characters, each one byte). The line feed, the
  carriage return and the tabulator are the control characters the pipeline meets.
\<close>

abbreviation NL :: char where
  "NL \<equiv> CHR 0x0A"

abbreviation TAB :: char where
  "TAB \<equiv> CHR 0x09"

abbreviation CR :: char where
  "CR \<equiv> CHR 0x0D"

datatype error =
    EmptyDataError
  | KeyError "string list"
  | FileNotFoundError
  | FileExistsError
  | IsADirectoryError
  | NotADirectoryError
  | UnicodeDecodeError
  | ParserError
  | OtherError string

text \<open>\<open>str.startswith\<close> and \<open>str.endswith\<close>.\<close>

definition startswith :: "string \<Rightarrow> string \<Rightarrow> bool" where
  "startswith s p = (take (length p) s = p)"

definition endswith :: "string \<Rightarrow> string \<Rightarrow> bool" where
  "endswith s p = (length p \<le> length s \<and> drop (length s - length p) s = p)"

text \<open>
  \<open>s.strip(chars)\<close>: every leading and every trailing character that occurs in
  \<open>chars\<close> is removed.
\<close>

definition strip :: "string \<Rightarrow> string \<Rightarrow> string" where
  "strip s chars =
     rev (dropWhile (\<lambda>c. c \<in> set chars) (rev (dropWhile (\<lambda>c. c \<in> set chars) s)))"

text \<open>
  \<open>open(file_path)\<close> reads the file in text mode. The bytes are decoded first; the
  model takes the default encoding to be UTF-8 and keeps decoded text as its UTF-8 bytes:
  the characters the program looks at (the brackets, the tabulator, the line ends) are
  single bytes that occur inside no longer sequence, so tests and cuts on them agree with
  the ones on code points. Bytes that are not well-formed UTF-8 (a stray continuation
  byte, a truncated or overlong sequence, a surrogate, a value beyond U+10FFFF) raise.
  Decoding is done for the whole content at once; Python decodes in blocks while the loop
  runs, which gives the same result since nothing is written before the loop has ended.
\<close>

definition utf8_lead :: "nat \<Rightarrow> (nat \<times> nat) list option" where
  "utf8_lead b =
     (if b < 0x80 then Some []
      else if 0xC2 \<le> b \<and> b \<le> 0xDF then Some [(0x80, 0xBF)]
      else if b = 0xE0 then Some [(0xA0, 0xBF), (0x80, 0xBF)]
      else if (0xE1 \<le> b \<and> b \<le> 0xEC) \<or> b = 0xEE \<or> b = 0xEF
        then Some [(0x80, 0xBF), (0x80, 0xBF)]
      else if b = 0xED then Some [(0x80, 0x9F), (0x80, 0xBF)]
      else if b = 0xF0 then Some [(0x90, 0xBF), (0x80, 0xBF), (0x80, 0xBF)]
      else if 0xF1 \<le> b \<and> b \<le> 0xF3 then Some [(0x80, 0xBF), (0x80, 0xBF), (0x80, 0xBF)]
      else if b = 0xF4 then Some [(0x80, 0x8F), (0x80, 0xBF), (0x80, 0xBF)]
      else None)"

fun utf8_scan :: "(nat \<times> nat) list \<Rightarrow> string \<Rightarrow> bool" where
  "utf8_scan pending [] = (pending = [])"
| "utf8_scan [] (c # cs) =
     (case utf8_lead (of_char c) of
        None \<Rightarrow> False
      | Some pending \<Rightarrow> utf8_scan pending cs)"
| "utf8_scan ((lo, hi) # pending) (c # cs) =
     (lo \<le> of_char c \<and> of_char c \<le> hi \<and> utf8_scan pending cs)"

definition decode_utf8 :: "string \<Rightarrow> error + string" where
  "decode_utf8 bytes = (if utf8_scan [] bytes then Inr bytes else Inl UnicodeDecodeError)"

text \<open>
  Line ends in text mode are universal: a line feed, a carriage return, and a carriage
  return followed by a line feed each end a line, and each reaches the program as one
  line feed. Iterating over the file yields its lines in order; each line keeps its line
  feed, and only the last line may lack one.
\<close>

fun universal_newlines :: "string \<Rightarrow> string" where
  "universal_newlines [] = []"
| "universal_newlines [c] = (if c = CR then [NL] else [c])"
| "universal_newlines (c # d # ds) =
     (if c = CR then
        (if d = NL then NL # universal_newlines ds else NL # universal_newlines (d # ds))
      else c # universal_newlines (d # ds))"

fun text_lines :: "string \<Rightarrow> string list" where
  "text_lines [] = []"
| "text_lines (c # cs) =
     (if c = NL then [c] # text_lines cs
      else (case text_lines cs of
              [] \<Rightarrow> [[c]]
            | l # ls \<Rightarrow> (c # l) # ls))"

definition file_lines :: "string \<Rightarrow> string list" where
  "file_lines content = text_lines (universal_newlines content)"

text \<open>
  \<open>bool(write_key)\<close>: \<open>None\<close> and the empty string are false, every other string is
  true.
\<close>

fun truthy :: "string option \<Rightarrow> bool" where
  "truthy None = False"
| "truthy (Some s) = (s \<noteq> [])"

section \<open>The Segmenter: \<open>SegmentTables._process_text_file\<close>, lines 111 to 124\<close>

text \<open>
  The local variables of the parsing loop: the tag \<open>write_key\<close>, the text buffer
  \<open>fio\<close> (an \<open>io.StringIO\<close>) and the dictionary \<open>dfs\<close>. A Python dictionary keeps
  its keys in insertion order and assigning to an existing key keeps the key's place;
  that is \<open>AList.update\<close> on an association list. The tabular reader
  \<open>pd.read_csv(fio, sep='\t')\<close> is a parameter \<open>rd\<close> of the model: it takes the
  buffered text and returns a table or raises.
\<close>

record 't seg_state =
  write_key :: "string option"
  fio :: string
  dfs :: "(string option \<times> 't) list"

definition seg_init :: "'t seg_state" where
  "seg_init = \<lparr>write_key = None, fio = [], dfs = []\<rparr>"

definition is_tag_line :: "string \<Rightarrow> bool" where
  "is_tag_line line = startswith line ''[''"

definition tag_of :: "string \<Rightarrow> string" where
  "tag_of line = strip line (''[]'' @ [NL])"

text \<open>The body of \<open>for line in file\<close>, lines 115 to 122.\<close>

definition seg_step ::
  "(string \<Rightarrow> error + 't) \<Rightarrow> 't seg_state \<Rightarrow> string \<Rightarrow> error + 't seg_state" where
  "seg_step rd st line =
     (if is_tag_line line then
        (if truthy (write_key st) then
           (case rd (fio st) of
              Inl e \<Rightarrow> Inl e
            | Inr df \<Rightarrow>
                Inr \<lparr>write_key = Some (tag_of line), fio = [],
                     dfs = AList.update (write_key st) df (dfs st)\<rparr>)
         else Inr (st\<lparr>write_key := Some (tag_of line)\<rparr>))
      else Inr (st\<lparr>fio := fio st @ line\<rparr>))"

fun seg_scan ::
  "(string \<Rightarrow> error + 't) \<Rightarrow> 't seg_state \<Rightarrow> string list \<Rightarrow> error + 't seg_state" where
  "seg_scan rd st [] = Inr st"
| "seg_scan rd st (line # rest) =
     (case seg_step rd st line of
        Inl e \<Rightarrow> Inl e
      | Inr st' \<Rightarrow> seg_scan rd st' rest)"

text \<open>Lines 123 and 124: the buffer left after the last line is read unconditionally.\<close>

definition seg_eof ::
  "(string \<Rightarrow> error + 't) \<Rightarrow> 't seg_state \<Rightarrow> error + (string option \<times> 't) list" where
  "seg_eof rd st =
     (case rd (fio st) of
        Inl e \<Rightarrow> Inl e
      | Inr df \<Rightarrow> Inr (AList.update (write_key st) df (dfs st)))"

definition segment ::
  "(string \<Rightarrow> error + 't) \<Rightarrow> string list \<Rightarrow> error + (string option \<times> 't) list" where
  "segment rd lines =
     (case seg_scan rd seg_init lines of
        Inl e \<Rightarrow> Inl e
      | Inr st \<Rightarrow> seg_eof rd st)"

section \<open>Tables\<close>

text \<open>
  Modelled from the spec: the tabular reader and writer (\<open>pandas.read_csv\<close>,
  \<open>DataFrame.to_csv\<close>, \<open>DataFrame.drop\<close>) are a library outside this repository.
  The spec describes them at their interface: tab-separated text whose first line is the
  header row gives a table, malformed content such as inconsistent column counts is a
  parse error, a table is written back as tab-separated text with its header, and
  removing columns requires the columns to be present. In \<open>read_csv\<close> empty lines are
  skipped, text with no other line raises \<open>EmptyDataError\<close>, a row with more fields than
  the header raises \<open>ParserError\<close>, and a shorter row is filled with empty fields.

  The model differs from pandas in what follows, and no theorem depends on it: fields are
  kept as text (no quoting, no type inference, no recognition of missing values), lines
  of blanks only are not skipped, duplicate column names are not renamed, and a first
  data row longer than the header raises where pandas reads its leading fields as an
  index. Every general theorem on the parsing loop is stated for an arbitrary reader
  \<open>rd\<close>; \<open>read_csv\<close> is applied to explicit texts only, and of its behaviour on other
  texts only \<open>read_csv [] = Inl EmptyDataError\<close> is used.
\<close>

record table =
  columns :: "string list"
  rows :: "string list list"

fun split_on :: "char \<Rightarrow> string \<Rightarrow> string list" where
  "split_on d [] = [[]]"
| "split_on d (c # cs) =
     (if c = d then [] # split_on d cs
      else (case split_on d cs of
              [] \<Rightarrow> [[c]]
            | f # fs \<Rightarrow> (c # f) # fs))"

definition chomp :: "string \<Rightarrow> string" where
  "chomp l = (if l \<noteq> [] \<and> last l = NL then butlast l else l)"

definition read_csv :: "string \<Rightarrow> error + table" where
  "read_csv text =
     (case filter (\<lambda>l. l \<noteq> []) (map chomp (file_lines text)) of
        [] \<Rightarrow> Inl EmptyDataError
      | h # rs \<Rightarrow>
          (let cols = split_on TAB h; recs = map (split_on TAB) rs
           in if \<exists>r \<in> set recs. length cols < length r then Inl ParserError
              else Inr \<lparr>columns = cols,
                        rows = map (\<lambda>r. r @ replicate (length cols - length r) []) recs\<rparr>))"

fun join_fields :: "string list \<Rightarrow> string" where
  "join_fields [] = []"
| "join_fields [f] = f"
| "join_fields (f # g # fs) = f @ [TAB] @ join_fields (g # fs)"

definition to_csv :: "table \<Rightarrow> string" where
  "to_csv df = concat (map (\<lambda>r. join_fields r @ [NL]) (columns df # rows df))"

definition drop_columns :: "table \<Rightarrow> string list \<Rightarrow> error + table" where
  "drop_columns df cs =
     (let missing = filter (\<lambda>c. c \<notin> set (columns df)) cs
      in if missing \<noteq> [] then Inl (KeyError missing)
         else Inr \<lparr>columns = filter (\<lambda>c. c \<notin> set cs) (columns df),
                   rows = map (\<lambda>r. map snd (filter (\<lambda>(c, v). c \<notin> set cs) (zip (columns df) r)))
                            (rows df)\<rparr>)"

text \<open>The columns named at line 140.\<close>

definition probes_dropped :: "string list" where
  "probes_dropped =
     [''Definition'', ''Ontology_Component'', ''Ontology_Process'', ''Ontology_Function'',
      ''Synonyms'', ''Obsolete_Probe_Id'', ''Probe_Sequence'']"

section \<open>Section-wise reading of a file\<close>

text \<open>
  The spec's words for the result of the parsing loop: a list of sections, each a tag and
  its buffered text, is read section by section, every table stored under its tag.
\<close>

fun finalize_all ::
  "(string \<Rightarrow> error + 't) \<Rightarrow> (string option \<times> 't) list \<Rightarrow> (string option \<times> string) list
     \<Rightarrow> error + (string option \<times> 't) list" where
  "finalize_all rd d [] = Inr d"
| "finalize_all rd d ((k, buf) # rest) =
     (case rd buf of
        Inl e \<Rightarrow> Inl e
      | Inr df \<Rightarrow> finalize_all rd (AList.update k df d) rest)"

definition section_lines :: "(string \<times> string list) list \<Rightarrow> string list" where
  "section_lines secs = concat (map (\<lambda>(t, b). t # b) secs)"

definition plain_lines :: "string list \<Rightarrow> bool" where
  "plain_lines b = (\<forall>l \<in> set b. \<not> is_tag_line l)"

definition well_sectioned :: "(string \<times> string list) list \<Rightarrow> bool" where
  "well_sectioned secs =
     (\<forall>(t, b) \<in> set secs. is_tag_line t \<and> tag_of t \<noteq> [] \<and> plain_lines b)"

definition section_buffers :: "(string \<times> string list) list \<Rightarrow> (string option \<times> string) list" where
  "section_buffers secs = map (\<lambda>(t, b). (Some (tag_of t), concat b)) secs"

section \<open>Paths and the file system\<close>

text \<open>
  \<open>os.path.join\<close> with two arguments, \<open>os.path.basename\<close>, \<open>os.path.dirname\<close> and
  \<open>os.path.splitext\<close> on POSIX paths, and \<open>str.replace\<close>. A path is the string the
  program builds; two spellings of one location are two paths here.
\<close>

definition path_join :: "string \<Rightarrow> string \<Rightarrow> string" where
  "path_join a b =
     (if startswith b ''/'' then b
      else if a = [] \<or> endswith a ''/'' then a @ b
      else a @ ''/'' @ b)"

definition basename :: "string \<Rightarrow> string" where
  "basename p = rev (takeWhile (\<lambda>c. c \<noteq> CHR ''/'') (rev p))"

definition dirname :: "string \<Rightarrow> string" where
  "dirname p =
     (let head = rev (dropWhile (\<lambda>c. c \<noteq> CHR ''/'') (rev p))
      in if head \<noteq> [] \<and> \<not> (\<forall>c \<in> set head. c = CHR ''/'')
         then rev (dropWhile (\<lambda>c. c = CHR ''/'') (rev head))
         else head)"

definition splitext :: "string \<Rightarrow> string \<times> string" where
  "splitext p =
     (let base = basename p; head = take (length p - length base) p
      in if CHR ''.'' \<in> set base then
           (let ext = CHR ''.'' # rev (takeWhile (\<lambda>c. c \<noteq> CHR ''.'') (rev base));
                stem = take (length base - length ext) base
            in if \<exists>c \<in> set stem. c \<noteq> CHR ''.'' then (head @ stem, ext) else (p, []))
         else (p, []))"

text \<open>
  \<open>s.replace(old, new)\<close> for a non-empty \<open>old\<close>, the only use the source makes of it
  (\<open>old\<close> is \<open>.txt\<close>): every occurrence, left to right and without overlap, is replaced.
\<close>

function replace_str :: "string \<Rightarrow> string \<Rightarrow> string \<Rightarrow> string" where
  "replace_str old new [] = []"
| "replace_str old new (c # cs) =
     (if old \<noteq> [] \<and> startswith (c # cs) old
      then new @ replace_str old new (drop (length old) (c # cs))
      else c # replace_str old new cs)"
  by pat_completeness auto
termination
  by (relation "measure (\<lambda>(old, new, s). length s)") auto

fun str_of_key :: "string option \<Rightarrow> string" where
  "str_of_key None = ''None''"
| "str_of_key (Some s) = s"

text \<open>
  The file system: a path holds a regular file with its content, a directory, or
  nothing. Every operation returns its result, or the error it raises, next to the file
  system it leaves.
\<close>

datatype node = File string | Dir

type_synonym fs = "string \<Rightarrow> node option"

definition path_exists :: "fs \<Rightarrow> string \<Rightarrow> bool" where
  "path_exists fs p = (fs p \<noteq> None)"

fun ancestors_from :: "string \<Rightarrow> string \<Rightarrow> string list" where
  "ancestors_from acc [] = []"
| "ancestors_from acc (c # cs) =
     (if c = CHR ''/'' \<and> acc \<noteq> [] then [acc] else []) @ ancestors_from (acc @ [c]) cs"

definition ancestors :: "string \<Rightarrow> string list" where
  "ancestors p = ancestors_from [] p"

text \<open>
  \<open>os.makedirs(p)\<close> creates \<open>p\<close> and every missing directory above it; it raises when
  \<open>p\<close> exists or a regular file is in the way (the model leaves the file system as it
  was in that case).
\<close>

fun is_file :: "node option \<Rightarrow> bool" where
  "is_file (Some (File c)) = True"
| "is_file (Some Dir) = False"
| "is_file None = False"

definition makedirs :: "string \<Rightarrow> fs \<Rightarrow> (error + unit) \<times> fs" where
  "makedirs p fs =
     (if fs p \<noteq> None then (Inl FileExistsError, fs)
      else if \<exists>q \<in> set (ancestors p). is_file (fs q) then (Inl NotADirectoryError, fs)
      else (Inr (), (\<lambda>q. if q = p \<or> q \<in> set (ancestors p) then Some Dir else fs q)))"

text \<open>\<open>if not os.path.exists(p): os.makedirs(p)\<close>, lines 43, 63 and 128.\<close>

definition ensure_dir :: "string \<Rightarrow> fs \<Rightarrow> (error + unit) \<times> fs" where
  "ensure_dir p fs = (if path_exists fs p then (Inr (), fs) else makedirs p fs)"

definition remove :: "string \<Rightarrow> fs \<Rightarrow> (error + unit) \<times> fs" where
  "remove p fs =
     (case fs p of
        Some (File c) \<Rightarrow> (Inr (), fs(p := None))
      | Some Dir \<Rightarrow> (Inl IsADirectoryError, fs)
      | None \<Rightarrow> (Inl FileNotFoundError, fs))"

definition open_read :: "string \<Rightarrow> fs \<Rightarrow> error + string" where
  "open_read p fs =
     (case fs p of
        Some (File c) \<Rightarrow> Inr c
      | Some Dir \<Rightarrow> Inl IsADirectoryError
      | None \<Rightarrow> Inl FileNotFoundError)"

text \<open>\<open>open(p)\<close> in text mode: the content of the file, decoded.\<close>

definition open_text :: "string \<Rightarrow> fs \<Rightarrow> error + string" where
  "open_text p fs =
     (case open_read p fs of
        Inl e \<Rightarrow> Inl e
      | Inr bytes \<Rightarrow> decode_utf8 bytes)"

definition parent_ok :: "fs \<Rightarrow> string \<Rightarrow> error option" where
  "parent_ok fs d =
     (if d = [] \<or> (\<forall>c \<in> set d. c = CHR ''/'') then None
      else (case fs d of
              Some Dir \<Rightarrow> None
            | Some (File c) \<Rightarrow> Some NotADirectoryError
            | None \<Rightarrow> Some FileNotFoundError))"

text \<open>\<open>open(p, 'wb')\<close>: the file is created, or emptied when it exists.\<close>

definition open_write :: "string \<Rightarrow> fs \<Rightarrow> (error + unit) \<times> fs" where
  "open_write p fs =
     (case parent_ok fs (dirname p) of
        Some e \<Rightarrow> (Inl e, fs)
      | None \<Rightarrow>
          (if fs p = Some Dir then (Inl IsADirectoryError, fs)
           else (Inr (), fs(p \<mapsto> File []))))"

definition write_file :: "string \<Rightarrow> string \<Rightarrow> fs \<Rightarrow> (error + unit) \<times> fs" where
  "write_file p content fs =
     (case open_write p fs of
        (Inl e, fs1) \<Rightarrow> (Inl e, fs1)
      | (Inr u, fs1) \<Rightarrow> (Inr (), fs1(p \<mapsto> File content)))"

section \<open>The Segmenter: persistence, lines 126 to 148\<close>

fun persist ::
  "string \<Rightarrow> string \<Rightarrow> (string option \<times> table) list \<Rightarrow> fs \<Rightarrow> (error + unit) \<times> fs" where
  "persist output_dir filename [] fs = (Inr (), fs)"
| "persist output_dir filename ((key, df) # rest) fs =
     (let output_path =
            path_join output_dir
              (replace_str ''.txt'' (''_'' @ str_of_key key @ ''.tsv'') filename)
      in case write_file output_path (to_csv df) fs of
           (Inl e, fs1) \<Rightarrow> (Inl e, fs1)
         | (Inr u, fs1) \<Rightarrow>
             (if key = Some ''Probes'' then
                (case drop_columns df probes_dropped of
                   Inl e \<Rightarrow> (Inl e, fs1)
                 | Inr probes_reduced_df \<Rightarrow>
                     (case write_file (path_join output_dir ''Probes_reduced.tsv'')
                             (to_csv probes_reduced_df) fs1 of
                        (Inl e, fs2) \<Rightarrow> (Inl e, fs2)
                      | (Inr u, fs2) \<Rightarrow> persist output_dir filename rest fs2))
              else persist output_dir filename rest fs1))"

definition process_text_file ::
  "(string \<Rightarrow> error + table) \<Rightarrow> string \<Rightarrow> string \<Rightarrow> string \<Rightarrow> string \<Rightarrow> fs
     \<Rightarrow> (error + unit) \<times> fs" where
  "process_text_file rd dataset_name file_path filename dir_name fs =
     (case open_text file_path fs of
        Inl e \<Rightarrow> (Inl e, fs)
      | Inr content \<Rightarrow>
          (case segment rd (file_lines content) of
             Inl e \<Rightarrow> (Inl e, fs)
           | Inr d \<Rightarrow>
               (let output_dir = path_join (path_join ''processed'' dataset_name) dir_name
                in case ensure_dir output_dir fs of
                     (Inl e, fs1) \<Rightarrow> (Inl e, fs1)
                   | (Inr u, fs1) \<Rightarrow> persist output_dir filename d fs1)))"

section \<open>The stages and their declared outputs\<close>

datatype stage = DownloadData | ExtractAndProcessData | SegmentTables


fun stage_output :: "stage \<Rightarrow> string \<Rightarrow> string" where
  "stage_output DownloadData dataset_name = path_join ''data'' (dataset_name @ ''_RAW.tar'')"
| "stage_output ExtractAndProcessData dataset_name = path_join ''extracted'' dataset_name"
| "stage_output SegmentTables dataset_name = path_join ''processed'' dataset_name"

section \<open>The Unpacker: \<open>ExtractAndProcessData\<close>\<close>

text \<open>
  The archive reader (\<open>tarfile.open\<close>, \<open>extractall\<close>, \<open>getnames\<close>, lines 46 to 51)
  and the decompressor (\<open>gzip\<close>) are parameters. \<open>untar\<close> takes the archive path, the
  target directory and the file system; it returns the member names or the error it
  raises, and the file system as extraction left it. \<open>gunzip\<close> takes the compressed
  bytes and returns the bytes it produced and, when the stream is corrupt, the error that
  stopped it.
\<close>

type_synonym untar = "string \<Rightarrow> string \<Rightarrow> fs \<Rightarrow> (error + string list) \<times> fs"

type_synonym gunzip = "string \<Rightarrow> string \<times> error option"

text \<open>Lines 45 to 57: \<open>try\<close>, \<open>except\<close> (log and re-raise) and \<open>finally\<close>.\<close>

definition extraction_step ::
  "untar \<Rightarrow> string \<Rightarrow> string \<Rightarrow> fs \<Rightarrow> (error + string list) \<times> fs" where
  "extraction_step untar tar_path extract_path fs =
     (case untar tar_path extract_path fs of
        (r, fs1) \<Rightarrow>
          (case remove tar_path fs1 of
             (Inl e2, fs2) \<Rightarrow> (Inl e2, fs2)
           | (Inr u, fs2) \<Rightarrow> (r, fs2)))"

text \<open>\<open>_process_gzip_file\<close>, lines 69 to 81.\<close>

definition gzip_copy :: "gunzip \<Rightarrow> string \<Rightarrow> string \<Rightarrow> fs \<Rightarrow> (error + unit) \<times> fs" where
  "gzip_copy gunzip gz_path output_path fs =
     (case open_read gz_path fs of
        Inl e \<Rightarrow> (Inl e, fs)
      | Inr c0 \<Rightarrow>
          (case open_write output_path fs of
             (Inl e, fs1) \<Rightarrow> (Inl e, fs1)
           | (Inr u, fs1) \<Rightarrow>
               (case open_read gz_path fs1 of
                  Inl e \<Rightarrow> (Inl e, fs1)
                | Inr c \<Rightarrow>
                    (case gunzip c of
                       (d, Some e) \<Rightarrow> (Inl e, fs1(output_path \<mapsto> File d))
                     | (d, None) \<Rightarrow> (Inr (), fs1(output_path \<mapsto> File d))))))"

definition process_gzip_file :: "gunzip \<Rightarrow> string \<Rightarrow> string \<Rightarrow> fs \<Rightarrow> (error + unit) \<times> fs" where
  "process_gzip_file gunzip gz_path extract_path fs =
     (let filename = fst (splitext (basename gz_path));
          output_path = path_join extract_path filename
      in case gzip_copy gunzip gz_path output_path fs of
           (r, fs1) \<Rightarrow>
             (case remove gz_path fs1 of
                (Inl e2, fs2) \<Rightarrow> (Inl e2, fs2)
              | (Inr u, fs2) \<Rightarrow> (r, fs2)))"

text \<open>The body of \<open>for item in file_names\<close>, lines 61 to 66, and the loop.\<close>

definition process_item :: "gunzip \<Rightarrow> string \<Rightarrow> string \<Rightarrow> fs \<Rightarrow> (error + unit) \<times> fs" where
  "process_item gunzip extract_path item fs =
     (let item_path = path_join extract_path item;
          item_dir = path_join extract_path (fst (splitext item))
      in case ensure_dir item_dir fs of
           (Inl e, fs1) \<Rightarrow> (Inl e, fs1)
         | (Inr u, fs1) \<Rightarrow>
             (if endswith item ''.gz'' then process_gzip_file gunzip item_path item_dir fs1
              else (Inr (), fs1)))"

fun process_items :: "gunzip \<Rightarrow> string \<Rightarrow> string list \<Rightarrow> fs \<Rightarrow> (error + unit) \<times> fs" where
  "process_items gunzip extract_path [] fs = (Inr (), fs)"
| "process_items gunzip extract_path (item # rest) fs =
     (case process_item gunzip extract_path item fs of
        (Inl e, fs1) \<Rightarrow> (Inl e, fs1)
      | (Inr u, fs1) \<Rightarrow> process_items gunzip extract_path rest fs1)"

definition unpacker_run :: "untar \<Rightarrow> gunzip \<Rightarrow> string \<Rightarrow> fs \<Rightarrow> (error + unit) \<times> fs" where
  "unpacker_run untar gunzip dataset_name fs =
     (let tar_path = stage_output DownloadData dataset_name;
          extract_path = path_join ''extracted'' dataset_name
      in case ensure_dir extract_path fs of
           (Inl e, fs1) \<Rightarrow> (Inl e, fs1)
         | (Inr u, fs1) \<Rightarrow>
             (case extraction_step untar tar_path extract_path fs1 of
                (Inl e, fs2) \<Rightarrow> (Inl e, fs2)
              | (Inr file_names, fs2) \<Rightarrow> process_items gunzip extract_path file_names fs2))"

section \<open>The pipeline engine\<close>




section \<open>Example inputs\<close>

text \<open>
  The synthetic file of the spec's segmentation property: a section \<open>[Header]\<close> and a
  section \<open>[Probes]\<close> with three columns. \<open>synthetic_full\<close> is the same file with a
  \<open>[Probes]\<close> section that has every column named at line 140.
\<close>

definition synthetic :: string where
  "synthetic =
     ''[Header]'' @ [NL] @ ''a'' @ [TAB] @ ''b'' @ [NL] @ ''1'' @ [TAB] @ ''2'' @ [NL]
     @ ''[Probes]'' @ [NL] @ ''ID'' @ [TAB] @ ''Definition'' @ [TAB] @ ''Probe_Sequence'' @ [NL]
     @ ''1'' @ [TAB] @ ''foo'' @ [TAB] @ ''ACGT'' @ [NL]"

definition synthetic_full :: string where
  "synthetic_full =
     ''[Header]'' @ [NL] @ ''a'' @ [TAB] @ ''b'' @ [NL] @ ''1'' @ [TAB] @ ''2'' @ [NL]
     @ ''[Probes]'' @ [NL]
     @ ''ID'' @ [TAB] @ ''Definition'' @ [TAB] @ ''Ontology_Component'' @ [TAB]
     @ ''Ontology_Process'' @ [TAB] @ ''Ontology_Function'' @ [TAB] @ ''Synonyms'' @ [TAB]
     @ ''Obsolete_Probe_Id'' @ [TAB] @ ''Probe_Sequence'' @ [NL]
     @ ''1'' @ [TAB] @ ''foo'' @ [TAB] @ ''c'' @ [TAB] @ ''p'' @ [TAB] @ ''f'' @ [TAB]
     @ ''s'' @ [TAB] @ ''o'' @ [TAB] @ ''ACGT'' @ [NL]"

text \<open>A file system that holds one regular file and nothing else.\<close>

definition single_file :: "string \<Rightarrow> string \<Rightarrow> fs" where
  "single_file p content = (\<lambda>q. if q = p then Some (File content) else None)"

section \<open>Tag lines\<close>

lemma startswith_bracket: "startswith l ''['' \<longleftrightarrow> (\<exists>r. l = CHR ''['' # r)"
  by (cases l) (auto simp: startswith_def)

lemma strip_middle:
  "dropWhile (\<lambda>c. c \<in> set cs) s =
     strip s cs @ rev (takeWhile (\<lambda>c. c \<in> set cs) (rev (dropWhile (\<lambda>c. c \<in> set cs) s)))"
  unfolding strip_def by (metis rev_append rev_rev_ident takeWhile_dropWhile_id)

lemma strip_decompose:
  "\<exists>pre post. s = pre @ strip s cs @ post \<and> set pre \<subseteq> set cs \<and> set post \<subseteq> set cs"
proof -
  let ?P = "\<lambda>c. c \<in> set cs"
  let ?m = "dropWhile ?P s"
  let ?post = "rev (takeWhile ?P (rev ?m))"
  have "s = takeWhile ?P s @ ?m" by simp
  then have a: "s = takeWhile ?P s @ strip s cs @ ?post"
    using strip_middle [of cs s] by simp
  have d: "set (takeWhile ?P s) \<subseteq> set cs"
    by (auto dest: set_takeWhileD)
  have e: "set ?post \<subseteq> set cs"
  proof
    fix x
    assume "x \<in> set ?post"
    then have "x \<in> set (takeWhile ?P (rev ?m))" by (simp only: set_rev)
    then show "x \<in> set cs" by (rule set_takeWhileD [THEN conjunct2])
  qed
  from a d e show ?thesis by blast
qed

lemma strip_first: "strip s cs \<noteq> [] \<Longrightarrow> hd (strip s cs) \<notin> set cs"
proof -
  assume ne: "strip s cs \<noteq> []"
  let ?P = "\<lambda>c. c \<in> set cs"
  let ?m = "dropWhile ?P s"
  have mne: "?m \<noteq> []"
  proof
    assume "?m = []"
    then have "strip s cs = []" by (simp only: strip_def dropWhile.simps rev.simps)
    with ne show False by simp
  qed
  then have hm: "\<not> ?P (hd ?m)" by (rule hd_dropWhile)
  have "hd ?m = hd (strip s cs)"
    using ne strip_middle [of cs s] by (metis hd_append2)
  with hm show ?thesis by simp
qed

lemma strip_last: "strip s cs \<noteq> [] \<Longrightarrow> last (strip s cs) \<notin> set cs"
proof -
  assume ne: "strip s cs \<noteq> []"
  let ?P = "\<lambda>c. c \<in> set cs"
  let ?r = "dropWhile ?P (rev (dropWhile ?P s))"
  have rne: "?r \<noteq> []" using ne by (simp add: strip_def)
  then have "\<not> ?P (hd ?r)" by (rule hd_dropWhile)
  moreover have "last (strip s cs) = hd ?r"
    using rne by (simp add: strip_def last_rev)
  ultimately show ?thesis by simp
qed

text \<open>
  C9. A line is treated as a section-tag line exactly when its first character is the
  open bracket, whether or not a closing bracket follows. On such a line, in every state,
  the step buffers nothing and sets the tag to the line without its leading and trailing
  open brackets, close brackets and line feeds: when a non-empty tag is current the
  buffer is read first and emptied (and an error of the reader ends the step), otherwise
  only the tag changes. On every other line the step appends the line to the buffer and
  leaves the tag. The lines \<open>[[X]]\<close> and \<open>[X\<close> both give the tag \<open>X\<close>.
\<close>

theorem tag_line_recognition:
  "(is_tag_line line \<longleftrightarrow> (\<exists>r. line = CHR ''['' # r))
   \<and> (truthy (write_key st) \<and> is_tag_line line \<longrightarrow>
        seg_step rd st line =
          (case rd (fio st) of
             Inl e \<Rightarrow> Inl e
           | Inr df \<Rightarrow> Inr \<lparr>write_key = Some (tag_of line), fio = [],
                             dfs = AList.update (write_key st) df (dfs st)\<rparr>))
   \<and> (\<not> truthy (write_key st) \<and> is_tag_line line \<longrightarrow>
        seg_step rd st line = Inr (st\<lparr>write_key := Some (tag_of line)\<rparr>))
   \<and> (is_tag_line line \<and> seg_step rd st line = Inr st' \<longrightarrow>
        write_key st' = Some (tag_of line) \<and> (fio st' = [] \<or> fio st' = fio st))
   \<and> (\<not> is_tag_line line \<longrightarrow> seg_step rd st line = Inr (st\<lparr>fio := fio st @ line\<rparr>))
   \<and> (\<exists>pre post. line = pre @ tag_of line @ post
         \<and> set pre \<subseteq> {CHR ''['', CHR '']'', NL} \<and> set post \<subseteq> {CHR ''['', CHR '']'', NL})
   \<and> (tag_of line \<noteq> [] \<longrightarrow>
         hd (tag_of line) \<notin> {CHR ''['', CHR '']'', NL}
         \<and> last (tag_of line) \<notin> {CHR ''['', CHR '']'', NL})
   \<and> tag_of (''[[X]]'' @ [NL]) = ''X''
   \<and> tag_of (''[X'' @ [NL]) = ''X''
   \<and> is_tag_line (''[X'' @ [NL])"
proof -
  have s: "set (''[]'' @ [NL]) = {CHR ''['', CHR '']'', NL}" by auto
  have a: "is_tag_line line \<longleftrightarrow> (\<exists>r. line = CHR ''['' # r)"
    by (simp add: is_tag_line_def startswith_bracket)
  have b1: "truthy (write_key st) \<and> is_tag_line line \<longrightarrow>
        seg_step rd st line =
          (case rd (fio st) of
             Inl e \<Rightarrow> Inl e
           | Inr df \<Rightarrow> Inr \<lparr>write_key = Some (tag_of line), fio = [],
                             dfs = AList.update (write_key st) df (dfs st)\<rparr>)"
    by (simp add: seg_step_def)
  have b2: "\<not> truthy (write_key st) \<and> is_tag_line line \<longrightarrow>
        seg_step rd st line = Inr (st\<lparr>write_key := Some (tag_of line)\<rparr>)"
    by (simp add: seg_step_def)
  have b3: "is_tag_line line \<and> seg_step rd st line = Inr st' \<longrightarrow>
        write_key st' = Some (tag_of line) \<and> (fio st' = [] \<or> fio st' = fio st)"
    by (cases "rd (fio st)") (auto simp: seg_step_def split: if_splits)
  have c: "\<not> is_tag_line line \<longrightarrow> seg_step rd st line = Inr (st\<lparr>fio := fio st @ line\<rparr>)"
    by (simp add: seg_step_def)
  have d: "\<exists>pre post. line = pre @ tag_of line @ post
         \<and> set pre \<subseteq> {CHR ''['', CHR '']'', NL} \<and> set post \<subseteq> {CHR ''['', CHR '']'', NL}"
    using strip_decompose [of line "''[]'' @ [NL]"] unfolding tag_of_def s .
  have e: "tag_of line \<noteq> [] \<longrightarrow>
         hd (tag_of line) \<notin> {CHR ''['', CHR '']'', NL}
         \<and> last (tag_of line) \<notin> {CHR ''['', CHR '']'', NL}"
    using strip_first [of line "''[]'' @ [NL]"] strip_last [of line "''[]'' @ [NL]"]
    unfolding tag_of_def s by blast
  have f: "tag_of (''[[X]]'' @ [NL]) = ''X''" "tag_of (''[X'' @ [NL]) = ''X''"
    by (simp_all add: tag_of_def strip_def)
  have g: "is_tag_line (''[X'' @ [NL])"
    by (simp add: is_tag_line_def startswith_def)
  from a b1 b2 b3 c d e f g show ?thesis by blast
qed

theorem tag_line_recognition_witness:
  "is_tag_line (''[X'' @ [NL])
   \<and> seg_step read_csv seg_init (''[X'' @ [NL]) = Inr (seg_init\<lparr>write_key := Some ''X''\<rparr>)
   \<and> seg_step read_csv \<lparr>write_key = Some ''A'', fio = ''c'' @ [NL], dfs = []\<rparr> (''[X'' @ [NL])
       = Inr \<lparr>write_key = Some ''X'', fio = [],
              dfs = [(Some ''A'', \<lparr>columns = [''c''], rows = []\<rparr>)]\<rparr>
   \<and> seg_step read_csv seg_init (''a'' @ [NL]) = Inr (seg_init\<lparr>fio := ''a'' @ [NL]\<rparr>)
   \<and> hd (tag_of (''[X'' @ [NL])) \<noteq> CHR ''[''"
proof -
  let ?l = "''[X'' @ [NL]"
  let ?st = "\<lparr>write_key = Some ''A'', fio = ''c'' @ [NL], dfs = []\<rparr> :: table seg_state"
  have t: "tag_of ?l = ''X''"
    by (simp add: tag_of_def strip_def)
  have i: "is_tag_line ?l"
    by (simp add: is_tag_line_def startswith_def)
  have n: "\<not> is_tag_line (''a'' @ [NL])"
    by (simp add: is_tag_line_def startswith_def)
  have r: "read_csv (fio ?st) = Inr \<lparr>columns = [''c''], rows = []\<rparr>" by code_simp
  have k: "truthy (write_key ?st)" by simp
  have w1: "seg_step read_csv seg_init ?l = Inr (seg_init\<lparr>write_key := Some ''X''\<rparr>)"
    using tag_line_recognition [of ?l seg_init read_csv] i t by (simp add: seg_init_def)
  have w2: "seg_step read_csv ?st ?l
       = Inr \<lparr>write_key = Some ''X'', fio = [],
              dfs = [(Some ''A'', \<lparr>columns = [''c''], rows = []\<rparr>)]\<rparr>"
    using tag_line_recognition [of ?l ?st read_csv] i t r k by simp
  have w3: "seg_step read_csv seg_init (''a'' @ [NL]) = Inr (seg_init\<lparr>fio := ''a'' @ [NL]\<rparr>)"
    using tag_line_recognition [of "''a'' @ [NL]" seg_init read_csv] n by (simp add: seg_init_def)
  have w4: "hd (tag_of ?l) \<noteq> CHR ''[''" by (simp add: tag_of_def strip_def)
  from i w1 w2 w3 w4 show ?thesis by blast
qed

section \<open>The parsing loop\<close>

lemma seg_scan_append:
  "seg_scan rd st (xs @ ys) =
     (case seg_scan rd st xs of Inl e \<Rightarrow> Inl e | Inr st' \<Rightarrow> seg_scan rd st' ys)"
  by (induction xs arbitrary: st) (auto split: sum.splits)

lemma seg_scan_plain:
  "plain_lines b \<Longrightarrow> seg_scan rd st b = Inr (st\<lparr>fio := fio st @ concat b\<rparr>)"
  by (induction b arbitrary: st) (simp_all add: seg_step_def plain_lines_def)



lemma seg_step_tag_truthy:
  "is_tag_line t \<Longrightarrow> truthy (write_key st) \<Longrightarrow>
   seg_step rd st t =
     (case rd (fio st) of
        Inl e \<Rightarrow> Inl e
      | Inr df \<Rightarrow> Inr \<lparr>write_key = Some (tag_of t), fio = [],
                        dfs = AList.update (write_key st) df (dfs st)\<rparr>)"
  by (simp add: seg_step_def)

lemma seg_step_tag_falsy:
  "is_tag_line t \<Longrightarrow> \<not> truthy (write_key st) \<Longrightarrow>
   seg_step rd st t = Inr (st\<lparr>write_key := Some (tag_of t)\<rparr>)"
  by (simp add: seg_step_def)

lemma sections_from:
  "truthy (write_key st) \<Longrightarrow> well_sectioned secs \<Longrightarrow>
   (case seg_scan rd st (section_lines secs) of Inl e \<Rightarrow> Inl e | Inr st' \<Rightarrow> seg_eof rd st')
     = finalize_all rd (dfs st) ((write_key st, fio st) # section_buffers secs)"
proof (induction secs arbitrary: st)
  case Nil
  then show ?case
    by (simp add: section_lines_def section_buffers_def seg_eof_def split: sum.splits)
next
  case (Cons sec secs)
  obtain t b where sec: "sec = (t, b)" by (cases sec)
  from Cons.prems sec have t: "is_tag_line t" "tag_of t \<noteq> []" "plain_lines b"
    and ws: "well_sectioned secs"
    by (auto simp: well_sectioned_def)
  have lines: "section_lines ((t, b) # secs) = t # (b @ section_lines secs)"
    by (simp add: section_lines_def)
  show ?case
  proof (cases "rd (fio st)")
    case (Inl e)
    then show ?thesis
      using t Cons.prems(1) by (simp add: sec lines seg_step_tag_truthy)
  next
    case (Inr df)
    let ?st1 = "\<lparr>write_key = Some (tag_of t), fio = [],
                  dfs = AList.update (write_key st) df (dfs st)\<rparr> :: 'a seg_state"
    let ?st2 = "?st1\<lparr>fio := concat b\<rparr>"
    have s1: "seg_step rd st t = Inr ?st1"
      using t Cons.prems(1) Inr by (simp add: seg_step_tag_truthy)
    have s2: "seg_scan rd ?st1 (b @ section_lines secs) = seg_scan rd ?st2 (section_lines secs)"
      using t(3) by (simp add: seg_scan_append seg_scan_plain)
    have tr: "truthy (write_key ?st2)" using t(2) by simp
    have "(case seg_scan rd ?st2 (section_lines secs) of Inl e \<Rightarrow> Inl e
            | Inr st' \<Rightarrow> seg_eof rd st')
          = finalize_all rd (dfs ?st2) ((write_key ?st2, fio ?st2) # section_buffers secs)"
      using Cons.IH [OF tr ws] .
    then show ?thesis
      using s1 s2 Inr by (simp add: sec lines section_buffers_def)
  qed
qed

lemma segment_sections:
  assumes "plain_lines pre" and "well_sectioned ((t, b) # others)"
  shows "segment rd (pre @ section_lines ((t, b) # others)) =
           finalize_all rd [] ((Some (tag_of t), concat pre @ concat b) # section_buffers others)"
proof -
  from assms(2) have t: "is_tag_line t" "tag_of t \<noteq> []" "plain_lines b"
    and ws: "well_sectioned others"
    by (auto simp: well_sectioned_def)
  let ?st = "\<lparr>write_key = Some (tag_of t), fio = concat pre @ concat b, dfs = []\<rparr> :: 'a seg_state"
  have a: "seg_scan rd seg_init pre = Inr (seg_init\<lparr>fio := concat pre\<rparr>)"
    using assms(1) by (simp add: seg_scan_plain seg_init_def)
  have b: "seg_step rd (seg_init\<lparr>fio := concat pre\<rparr>) t
             = Inr \<lparr>write_key = Some (tag_of t), fio = concat pre, dfs = []\<rparr>"
    using t(1) by (simp add: seg_step_def seg_init_def)
  have c: "seg_scan rd \<lparr>write_key = Some (tag_of t), fio = concat pre, dfs = []\<rparr>
             (b @ section_lines others) = seg_scan rd ?st (section_lines others)"
    using t(3) by (simp add: seg_scan_append seg_scan_plain)
  have lines: "section_lines ((t, b) # others) = t # (b @ section_lines others)"
    by (simp add: section_lines_def)
  have tr: "truthy (write_key ?st)" using t(2) by simp
  have "segment rd (pre @ section_lines ((t, b) # others))
         = (case seg_scan rd ?st (section_lines others) of Inl e \<Rightarrow> Inl e
            | Inr st' \<Rightarrow> seg_eof rd st')"
    using a b c by (simp add: segment_def seg_scan_append lines)
  also have "\<dots> = finalize_all rd (dfs ?st) ((write_key ?st, fio ?st) # section_buffers others)"
    by (rule sections_from [OF tr ws])
  finally show ?thesis by simp
qed


lemma update_keys: "fst ` set (AList.update k v al) = insert k (fst ` set al)"
  by (simp add: dom_update)

lemma seg_step_keys:
  assumes "seg_step rd st l = Inr st'"
    and "write_key st \<in> T" and "fst ` set (dfs st) \<subseteq> T"
    and "is_tag_line l \<longrightarrow> Some (tag_of l) \<in> T"
  shows "write_key st' \<in> T \<and> fst ` set (dfs st') \<subseteq> T"
proof (cases "is_tag_line l")
  case False
  then have "st' = st\<lparr>fio := fio st @ l\<rparr>"
    using assms(1) by (simp add: seg_step_def)
  then show ?thesis using assms(2,3) by simp
next
  case tag: True
  show ?thesis
  proof (cases "truthy (write_key st)")
    case False
    then have "st' = st\<lparr>write_key := Some (tag_of l)\<rparr>"
      using assms(1) tag by (simp add: seg_step_def)
    then show ?thesis using assms(3,4) tag by simp
  next
    case True
    then obtain df where
      "st' = \<lparr>write_key = Some (tag_of l), fio = [],
              dfs = AList.update (write_key st) df (dfs st)\<rparr>"
      using assms(1) tag by (cases "rd (fio st)") (auto simp: seg_step_def)
    then show ?thesis using assms(2,3,4) tag by (simp add: update_keys)
  qed
qed

lemma seg_scan_keys:
  assumes "seg_scan rd st ls = Inr st'"
    and "write_key st \<in> T" and "fst ` set (dfs st) \<subseteq> T"
    and "\<forall>l \<in> set ls. is_tag_line l \<longrightarrow> Some (tag_of l) \<in> T"
  shows "write_key st' \<in> T \<and> fst ` set (dfs st') \<subseteq> T"
  using assms
proof (induction ls arbitrary: st)
  case Nil
  then show ?case by simp
next
  case (Cons l ls)
  from Cons.prems(1) obtain st1 where s1: "seg_step rd st l = Inr st1"
    and s2: "seg_scan rd st1 ls = Inr st'"
    by (auto split: sum.splits)
  have "write_key st1 \<in> T \<and> fst ` set (dfs st1) \<subseteq> T"
    using seg_step_keys [OF s1 Cons.prems(2) Cons.prems(3)] Cons.prems(4) by simp
  then show ?case
    using Cons.IH [OF s2] Cons.prems(4) by simp
qed

lemma segment_first_tag_keys:
  assumes "is_tag_line l" and "segment rd (l # ls) = Inr d"
  shows "fst ` set d \<subseteq> (\<lambda>t. Some (tag_of t)) ` {t \<in> set (l # ls). is_tag_line t}"
proof -
  let ?T = "(\<lambda>t. Some (tag_of t)) ` {t \<in> set (l # ls). is_tag_line t}"
  let ?st1 = "seg_init\<lparr>write_key := Some (tag_of l)\<rparr> :: 'a seg_state"
  have s1: "seg_step rd seg_init l = Inr ?st1"
    using assms(1) by (simp add: seg_step_def seg_init_def)
  from assms(2) s1 obtain st' where sc: "seg_scan rd ?st1 ls = Inr st'"
    and eof: "seg_eof rd st' = Inr d"
    by (auto simp: segment_def split: sum.splits)
  have k1: "write_key ?st1 \<in> ?T" using assms(1) by simp
  have k2: "fst ` set (dfs ?st1) \<subseteq> ?T" by (simp add: seg_init_def)
  have k3: "\<forall>x \<in> set ls. is_tag_line x \<longrightarrow> Some (tag_of x) \<in> ?T" by auto
  have inv: "write_key st' \<in> ?T \<and> fst ` set (dfs st') \<subseteq> ?T"
    by (rule seg_scan_keys [OF sc k1 k2 k3])
  from eof obtain df where "d = AList.update (write_key st') df (dfs st')"
    by (auto simp: seg_eof_def split: sum.splits)
  then show ?thesis using inv by (simp add: update_keys)
qed

lemma read_csv_empty: "read_csv [] = Inl EmptyDataError"
  by (simp add: read_csv_def file_lines_def)


lemma segment_snoc_tag:
  assumes "is_tag_line t" and "rd [] = Inl e0"
    and "\<forall>st. seg_scan rd seg_init pre = Inr st \<longrightarrow> truthy (write_key st) \<or> fio st = []"
  shows "\<exists>e. segment rd (pre @ [t]) = Inl e"
proof (cases "seg_scan rd seg_init pre")
  case (Inl e)
  then show ?thesis by (simp add: segment_def seg_scan_append)
next
  case (Inr st)
  with assms(3) have c: "truthy (write_key st) \<or> fio st = []" by simp
  show ?thesis
  proof (cases "truthy (write_key st)")
    case True
    then show ?thesis
      using Inr assms(1,2)
      by (cases "rd (fio st)")
         (simp_all add: segment_def seg_scan_append seg_step_def seg_eof_def)
  next
    case False
    with c have "fio st = []" by simp
    then show ?thesis
      using Inr False assms(1,2)
      by (simp add: segment_def seg_scan_append seg_step_def seg_eof_def)
  qed
qed

lemma segment_last_section:
  assumes "seg_scan rd seg_init pre = Inr st0" and "truthy (write_key st0)"
    and "rd (fio st0) = Inr d0" and "is_tag_line t" and "plain_lines b"
  shows "segment rd (pre @ t # b) =
           (case rd (concat b) of
              Inl e \<Rightarrow> Inl e
            | Inr df \<Rightarrow> Inr (AList.update (Some (tag_of t)) df
                              (AList.update (write_key st0) d0 (dfs st0))))"
  using assms
  by (simp add: segment_def seg_scan_append seg_step_def seg_scan_plain seg_eof_def
        split: sum.splits)

section \<open>Claims on the parsing loop\<close>

text \<open>
  C1 (amended). The Segmenter reads the lines in order as a state machine. On a line that
  begins with the open bracket while a non-empty tag is current, the buffer is read as a
  table and stored under that tag, and the buffer is emptied; while no tag is set, nothing
  is read. In both cases the tag becomes the stripped line and the line enters no buffer.
  Every other line is appended to the buffer as it is. After the last line the buffer is
  read once more and stored under the tag then current. For a file made of lines without a
  tag followed by sections with non-empty tags, the result is the section-wise reading:
  one table per section, read from exactly the lines of that section, the lines before the
  first tag going to the first section.
\<close>

theorem segmenter_state_machine:
  assumes "plain_lines pre" and "well_sectioned ((t, b) # others)"
  shows "segment rd (pre @ section_lines ((t, b) # others)) =
           finalize_all rd [] ((Some (tag_of t), concat pre @ concat b) # section_buffers others)
         \<and> (\<forall>st line. is_tag_line line \<and> truthy (write_key st) \<longrightarrow>
               seg_step rd st line =
                 (case rd (fio st) of
                    Inl e \<Rightarrow> Inl e
                  | Inr df \<Rightarrow> Inr \<lparr>write_key = Some (tag_of line), fio = [],
                                    dfs = AList.update (write_key st) df (dfs st)\<rparr>))
         \<and> (\<forall>st line. is_tag_line line \<and> write_key st = None \<longrightarrow>
               seg_step rd st line = Inr (st\<lparr>write_key := Some (tag_of line)\<rparr>))
         \<and> (\<forall>st line. \<not> is_tag_line line \<longrightarrow>
               seg_step rd st line = Inr (st\<lparr>fio := fio st @ line\<rparr>))
         \<and> (\<forall>ls. segment rd ls =
               (case seg_scan rd seg_init ls of
                  Inl e \<Rightarrow> Inl e
                | Inr st \<Rightarrow>
                    (case rd (fio st) of
                       Inl e \<Rightarrow> Inl e
                     | Inr df \<Rightarrow> Inr (AList.update (write_key st) df (dfs st)))))"
proof -
  have a: "segment rd (pre @ section_lines ((t, b) # others)) =
           finalize_all rd [] ((Some (tag_of t), concat pre @ concat b) # section_buffers others)"
    by (rule segment_sections [OF assms])
  have b: "\<forall>st line. is_tag_line line \<and> truthy (write_key st) \<longrightarrow>
               seg_step rd st line =
                 (case rd (fio st) of
                    Inl e \<Rightarrow> Inl e
                  | Inr df \<Rightarrow> Inr \<lparr>write_key = Some (tag_of line), fio = [],
                                    dfs = AList.update (write_key st) df (dfs st)\<rparr>)"
    by (simp add: seg_step_def)
  have c: "\<forall>st line. is_tag_line line \<and> write_key st = None \<longrightarrow>
               seg_step rd st line = Inr (st\<lparr>write_key := Some (tag_of line)\<rparr>)"
    by (simp add: seg_step_def)
  have d: "\<forall>st line. \<not> is_tag_line line \<longrightarrow>
               seg_step rd st line = Inr (st\<lparr>fio := fio st @ line\<rparr>)"
    by (simp add: seg_step_def)
  have e: "\<forall>ls. segment rd ls =
               (case seg_scan rd seg_init ls of
                  Inl e \<Rightarrow> Inl e
                | Inr st \<Rightarrow>
                    (case rd (fio st) of
                       Inl e \<Rightarrow> Inl e
                     | Inr df \<Rightarrow> Inr (AList.update (write_key st) df (dfs st))))"
    by (simp add: segment_def seg_eof_def split: sum.splits)
  from a b c d e show ?thesis by blast
qed

theorem segmenter_state_machine_witness:
  "plain_lines [''x'' @ [NL]]
   \<and> well_sectioned [(''[A]'' @ [NL], [''c'' @ [NL], ''1'' @ [NL]]), (''[B]'' @ [NL], [''d'' @ [NL]])]
   \<and> segment read_csv
        ([''x'' @ [NL]]
         @ section_lines [(''[A]'' @ [NL], [''c'' @ [NL], ''1'' @ [NL]]), (''[B]'' @ [NL], [''d'' @ [NL]])])
       = Inr [(Some ''A'', \<lparr>columns = [''x''], rows = [[''c''], [''1'']]\<rparr>),
              (Some ''B'', \<lparr>columns = [''d''], rows = []\<rparr>)]"
proof -
  let ?pre = "[''x'' @ [NL]]"
  let ?t = "''[A]'' @ [NL]"
  let ?b = "[''c'' @ [NL], ''1'' @ [NL]]"
  let ?others = "[(''[B]'' @ [NL], [''d'' @ [NL]])]"
  have p: "plain_lines ?pre" by code_simp
  have w: "well_sectioned ((?t, ?b) # ?others)" by code_simp
  have s: "segment read_csv (?pre @ section_lines ((?t, ?b) # ?others)) =
           finalize_all read_csv []
             ((Some (tag_of ?t), concat ?pre @ concat ?b) # section_buffers ?others)"
    using segmenter_state_machine [OF p w, of read_csv] by (rule conjunct1)
  have v: "finalize_all read_csv []
             ((Some (tag_of ?t), concat ?pre @ concat ?b) # section_buffers ?others)
           = Inr [(Some ''A'', \<lparr>columns = [''x''], rows = [[''c''], [''1'']]\<rparr>),
                  (Some ''B'', \<lparr>columns = [''d''], rows = []\<rparr>)]"
    by code_simp
  from p w s v show ?thesis by simp
qed

text \<open>
  C1 as stated fails where a tag is set but empty: after the line \<open>[]\<close> the tag is the
  empty string, and the next tag line neither reads the buffer nor empties it.
\<close>

theorem empty_tag_is_not_finalized:
  "segment read_csv [''[]'' @ [NL], ''a'' @ [NL], ''[X]'' @ [NL], ''b'' @ [NL]]
     = Inr [(Some ''X'', \<lparr>columns = [''a''], rows = [[''b'']]\<rparr>)]
   \<and> finalize_all read_csv [] [(Some [], ''a'' @ [NL]), (Some ''X'', ''b'' @ [NL])]
     = Inr [(Some [], \<lparr>columns = [''a''], rows = []\<rparr>),
            (Some ''X'', \<lparr>columns = [''b''], rows = []\<rparr>)]
   \<and> seg_step read_csv \<lparr>write_key = Some [], fio = ''a'' @ [NL], dfs = []\<rparr> (''[X]'' @ [NL])
     = Inr \<lparr>write_key = Some ''X'', fio = ''a'' @ [NL], dfs = []\<rparr>"
  by code_simp




text \<open>
  C4 (amended). For every input text file with exactly two section-tag lines whose tags
  differ and whose first tag is not empty, and whose buffered text the reader accepts at
  both finalizations, the Segmenter produces exactly two tables, the second built from
  exactly the lines that follow the second tag, and no third one. In general, when a
  non-empty tag is current before the last tag line, the table of the last section is
  read from exactly the lines after that tag line up to the end of the file.
\<close>

theorem last_section_extends_to_eof:
  "(plain_lines pre \<and> plain_lines b1 \<and> plain_lines b2 \<and> is_tag_line t1 \<and> is_tag_line t2
      \<and> tag_of t1 \<noteq> [] \<and> tag_of t1 \<noteq> tag_of t2
      \<and> rd (concat pre @ concat b1) = Inr d1 \<and> rd (concat b2) = Inr d2
      \<longrightarrow> segment rd (pre @ t1 # b1 @ t2 # b2)
            = Inr [(Some (tag_of t1), d1), (Some (tag_of t2), d2)])
   \<and> (seg_scan rd seg_init ls = Inr st0 \<and> truthy (write_key st0) \<and> rd (fio st0) = Inr d0
        \<and> is_tag_line t \<and> plain_lines b
      \<longrightarrow> segment rd (ls @ t # b) =
            (case rd (concat b) of
               Inl e \<Rightarrow> Inl e
             | Inr df \<Rightarrow> Inr (AList.update (Some (tag_of t)) df
                               (AList.update (write_key st0) d0 (dfs st0)))))"
proof -
  have gen: "segment rd (xs @ u # c) =
            (case rd (concat c) of
               Inl e \<Rightarrow> Inl e
             | Inr df \<Rightarrow> Inr (AList.update (Some (tag_of u)) df
                               (AList.update (write_key s0) e0 (dfs s0))))"
    if "seg_scan rd seg_init xs = Inr s0" "truthy (write_key s0)" "rd (fio s0) = Inr e0"
      "is_tag_line u" "plain_lines c"
    for xs u c s0 e0
    using that by (rule segment_last_section)
  have two: "segment rd (pre @ t1 # b1 @ t2 # b2)
            = Inr [(Some (tag_of t1), d1), (Some (tag_of t2), d2)]"
    if h: "plain_lines pre" "plain_lines b1" "plain_lines b2" "is_tag_line t1" "is_tag_line t2"
      "tag_of t1 \<noteq> []" "tag_of t1 \<noteq> tag_of t2"
      "rd (concat pre @ concat b1) = Inr d1" "rd (concat b2) = Inr d2"
  proof -
    let ?s0 = "\<lparr>write_key = Some (tag_of t1), fio = concat pre @ concat b1, dfs = []\<rparr>
                 :: 'a seg_state"
    have sc: "seg_scan rd seg_init (pre @ t1 # b1) = Inr ?s0"
      using h(1,2,4)
      by (simp add: seg_scan_append seg_scan_plain seg_step_def seg_init_def)
    have tr: "truthy (write_key ?s0)" using h(6) by simp
    have r0: "rd (fio ?s0) = Inr d1" using h(8) by simp
    have "segment rd ((pre @ t1 # b1) @ t2 # b2) =
            (case rd (concat b2) of
               Inl e \<Rightarrow> Inl e
             | Inr df \<Rightarrow> Inr (AList.update (Some (tag_of t2)) df
                               (AList.update (write_key ?s0) d1 (dfs ?s0))))"
      by (rule gen [OF sc tr r0 h(5) h(3)])
    then show ?thesis using h(7,9) by simp
  qed
  from two gen show ?thesis by blast
qed

theorem last_section_extends_to_eof_witness:
  "segment read_csv
     ([] @ (''[A]'' @ [NL]) # [''c'' @ [NL], ''1'' @ [NL]] @ (''[B]'' @ [NL]) # [''d'' @ [NL], ''2'' @ [NL]])
     = Inr [(Some (tag_of (''[A]'' @ [NL])), \<lparr>columns = [''c''], rows = [[''1'']]\<rparr>),
            (Some (tag_of (''[B]'' @ [NL])), \<lparr>columns = [''d''], rows = [[''2'']]\<rparr>)]"
proof -
  let ?t1 = "''[A]'' @ [NL]"
  let ?t2 = "''[B]'' @ [NL]"
  let ?b1 = "[''c'' @ [NL], ''1'' @ [NL]]"
  let ?b2 = "[''d'' @ [NL], ''2'' @ [NL]]"
  let ?d1 = "\<lparr>columns = [''c''], rows = [[''1'']]\<rparr>"
  let ?d2 = "\<lparr>columns = [''d''], rows = [[''2'']]\<rparr>"
  have h: "plain_lines [] \<and> plain_lines ?b1 \<and> plain_lines ?b2 \<and> is_tag_line ?t1 \<and> is_tag_line ?t2
      \<and> tag_of ?t1 \<noteq> [] \<and> tag_of ?t1 \<noteq> tag_of ?t2
      \<and> read_csv (concat [] @ concat ?b1) = Inr ?d1 \<and> read_csv (concat ?b2) = Inr ?d2"
    by code_simp
  show ?thesis
    using last_section_extends_to_eof
      [of "[]" ?b1 ?b2 ?t1 ?t2 read_csv ?d1 ?d2, THEN conjunct1, rule_format, OF h] .
qed

text \<open>
  C4 as stated fails when both tag lines carry the same tag: the second table replaces the
  first in the dictionary and exactly one table is produced.
\<close>

theorem repeated_tag_one_table:
  "segment read_csv
     (file_lines (''[A]'' @ [NL] @ ''c'' @ [NL] @ ''1'' @ [NL]
                  @ ''[A]'' @ [NL] @ ''c'' @ [NL] @ ''2'' @ [NL]))
     = Inr [(Some ''A'', \<lparr>columns = [''c''], rows = [[''2'']]\<rparr>)]"
  by code_simp

text \<open>
  C5. For every input text file whose first line is a section-tag line, no table is
  produced for the content before the first tag: on a tag line, the buffer is read only
  when a tag is already set. The first step reads nothing and stores nothing, and every
  table of the result is keyed by the tag of some tag line of the file.
\<close>

theorem no_table_before_first_tag:
  assumes "is_tag_line l"
  shows "seg_step rd seg_init l = Inr \<lparr>write_key = Some (tag_of l), fio = [], dfs = []\<rparr>
         \<and> (\<forall>st. write_key st = None \<longrightarrow>
               seg_step rd st l = Inr (st\<lparr>write_key := Some (tag_of l)\<rparr>))
         \<and> (\<forall>st st'. seg_step rd st l = Inr st' \<and> dfs st' \<noteq> dfs st \<longrightarrow> write_key st \<noteq> None)
         \<and> (\<forall>d. segment rd (l # ls) = Inr d \<longrightarrow>
               None \<notin> fst ` set d
               \<and> fst ` set d \<subseteq> (\<lambda>t. Some (tag_of t)) ` {t \<in> set (l # ls). is_tag_line t})"
proof -
  have a: "seg_step rd seg_init l = Inr \<lparr>write_key = Some (tag_of l), fio = [], dfs = []\<rparr>"
    using assms by (simp add: seg_step_def seg_init_def)
  have b: "\<forall>st. write_key st = None \<longrightarrow>
               seg_step rd st l = Inr (st\<lparr>write_key := Some (tag_of l)\<rparr>)"
    using assms by (simp add: seg_step_def)
  have c: "\<forall>st st'. seg_step rd st l = Inr st' \<and> dfs st' \<noteq> dfs st \<longrightarrow> write_key st \<noteq> None"
    using b by auto
  have d: "\<forall>d. segment rd (l # ls) = Inr d \<longrightarrow>
               None \<notin> fst ` set d
               \<and> fst ` set d \<subseteq> (\<lambda>t. Some (tag_of t)) ` {t \<in> set (l # ls). is_tag_line t}"
  proof (intro allI impI)
    fix d assume "segment rd (l # ls) = Inr d"
    then have s: "fst ` set d \<subseteq> (\<lambda>t. Some (tag_of t)) ` {t \<in> set (l # ls). is_tag_line t}"
      by (rule segment_first_tag_keys [OF assms])
    then have "None \<notin> fst ` set d" by blast
    with s show "None \<notin> fst ` set d
               \<and> fst ` set d \<subseteq> (\<lambda>t. Some (tag_of t)) ` {t \<in> set (l # ls). is_tag_line t}"
      by simp
  qed
  from a b c d show ?thesis by blast
qed

theorem no_table_before_first_tag_witness:
  "is_tag_line (''[A]'' @ [NL])
   \<and> seg_step read_csv seg_init (''[A]'' @ [NL])
       = Inr \<lparr>write_key = Some (tag_of (''[A]'' @ [NL])), fio = [], dfs = []\<rparr>
   \<and> segment read_csv ((''[A]'' @ [NL]) # [''x'' @ [NL]]) = Inr [(Some ''A'', \<lparr>columns = [''x''], rows = []\<rparr>)]
   \<and> None \<notin> fst ` set [(Some ''A'', \<lparr>columns = [''x''], rows = []\<rparr>)]"
proof -
  let ?l = "''[A]'' @ [NL]"
  let ?d = "[(Some ''A'', \<lparr>columns = [''x''], rows = []\<rparr>)]"
  have i: "is_tag_line ?l" by code_simp
  have v: "segment read_csv (?l # [''x'' @ [NL]]) = Inr ?d" by code_simp
  note w = no_table_before_first_tag [OF i, of read_csv "[''x'' @ [NL]]"]
  have a: "seg_step read_csv seg_init ?l
       = Inr \<lparr>write_key = Some (tag_of ?l), fio = [], dfs = []\<rparr>"
    using w by (rule conjunct1)
  have "\<forall>d. segment read_csv (?l # [''x'' @ [NL]]) = Inr d \<longrightarrow>
               None \<notin> fst ` set d
               \<and> fst ` set d \<subseteq> (\<lambda>t. Some (tag_of t)) ` {t \<in> set (?l # [''x'' @ [NL]]). is_tag_line t}"
    using w by blast
  with v have n: "None \<notin> fst ` set ?d" by blast
  from i a v n show ?thesis by blast
qed

section \<open>Claims on a whole text file\<close>

lemma segment_snoc_tag_exact:
  assumes "is_tag_line t" and "rd [] = Inl e0"
    and "seg_scan rd seg_init pre = Inr st"
    and "truthy (write_key st) \<or> fio st = []"
    and "truthy (write_key st) \<longrightarrow> (\<exists>df. rd (fio st) = Inr df)"
  shows "segment rd (pre @ [t]) = Inl e0"
proof (cases "truthy (write_key st)")
  case True
  with assms(5) obtain df where "rd (fio st) = Inr df" by blast
  then show ?thesis
    using True assms(1,2,3)
    by (simp add: segment_def seg_scan_append seg_step_def seg_eof_def)
next
  case False
  with assms(4) have "fio st = []" by simp
  then show ?thesis
    using False assms(1,2,3)
    by (simp add: segment_def seg_scan_append seg_step_def seg_eof_def)
qed

text \<open>
  C10 (amended). For every input text file that can be decoded, whose final line is a
  section-tag line and whose buffer is empty at the end of the file (a non-empty tag is current before the
  final line, or nothing has been buffered), the unconditional read at the end of the
  file is given an empty buffer, which raises; the stage aborts with an error and the file
  system is left as it was, so no output table is written for that file. When nothing
  raised before, the error is the one of the empty buffer.
\<close>

theorem trailing_tag_line_aborts:
  assumes "is_tag_line t" and "rd [] = Inl e0"
    and "open_text file_path fs = Inr content" and "file_lines content = pre @ [t]"
    and "\<forall>st. seg_scan rd seg_init pre = Inr st \<longrightarrow> truthy (write_key st) \<or> fio st = []"
  shows "(\<exists>e. process_text_file rd dataset_name file_path filename dir_name fs = (Inl e, fs))
         \<and> (\<forall>st. seg_scan rd seg_init pre = Inr st
                   \<and> (truthy (write_key st) \<longrightarrow> (\<exists>df. rd (fio st) = Inr df))
               \<longrightarrow> process_text_file rd dataset_name file_path filename dir_name fs
                     = (Inl e0, fs))"
proof -
  obtain e where e: "segment rd (pre @ [t]) = Inl e"
    using segment_snoc_tag [OF assms(1,2,5)] by blast
  have a: "\<exists>e. process_text_file rd dataset_name file_path filename dir_name fs = (Inl e, fs)"
    using e assms(3,4) by (simp add: process_text_file_def)
  have b: "process_text_file rd dataset_name file_path filename dir_name fs = (Inl e0, fs)"
    if "seg_scan rd seg_init pre = Inr st"
      and "truthy (write_key st) \<longrightarrow> (\<exists>df. rd (fio st) = Inr df)" for st
  proof -
    have "truthy (write_key st) \<or> fio st = []" using assms(5) that(1) by blast
    then have "segment rd (pre @ [t]) = Inl e0"
      using segment_snoc_tag_exact [OF assms(1,2) that(1)] that(2) by blast
    then show ?thesis using assms(3,4) by (simp add: process_text_file_def)
  qed
  from a b show ?thesis by blast
qed

theorem trailing_tag_line_aborts_witness:
  "process_text_file read_csv ''GSE68849'' ''in.txt'' ''in.txt'' ''d''
     (single_file ''in.txt'' (''[A]'' @ [NL] @ ''x'' @ [NL] @ ''[B]'' @ [NL]))
   = (Inl EmptyDataError, single_file ''in.txt'' (''[A]'' @ [NL] @ ''x'' @ [NL] @ ''[B]'' @ [NL]))"
proof -
  let ?content = "''[A]'' @ [NL] @ ''x'' @ [NL] @ ''[B]'' @ [NL]"
  let ?fs = "single_file ''in.txt'' ?content"
  let ?pre = "[''[A]'' @ [NL], ''x'' @ [NL]]"
  let ?t = "''[B]'' @ [NL]"
  let ?st = "\<lparr>write_key = Some ''A'', fio = ''x'' @ [NL], dfs = []\<rparr> :: table seg_state"
  have h1: "is_tag_line ?t" by code_simp
  have h2: "read_csv [] = Inl EmptyDataError" by (rule read_csv_empty)
  have h3: "open_text ''in.txt'' ?fs = Inr ?content" by code_simp
  have h4: "file_lines ?content = ?pre @ [?t]" by code_simp
  have sc: "seg_scan read_csv seg_init ?pre = Inr ?st" by code_simp
  have h5: "\<forall>st. seg_scan read_csv seg_init ?pre = Inr st \<longrightarrow> truthy (write_key st) \<or> fio st = []"
  proof (intro allI impI)
    fix st :: "table seg_state"
    assume a: "seg_scan read_csv seg_init ?pre = Inr st"
    have "Inr ?st = (Inr st :: error + table seg_state)" using a unfolding sc .
    then have "st = ?st" by simp
    then show "truthy (write_key st) \<or> fio st = []" by simp
  qed
  have rd: "read_csv (fio ?st) = Inr \<lparr>columns = [''x''], rows = []\<rparr>" by code_simp
  have ok: "seg_scan read_csv seg_init ?pre = Inr ?st
            \<and> (truthy (write_key ?st) \<longrightarrow> (\<exists>df. read_csv (fio ?st) = Inr df))"
    using sc rd by blast
  show ?thesis
    using trailing_tag_line_aborts
      [OF h1 h2 h3 h4 h5, of "''GSE68849''" "''in.txt''" "''d''", THEN conjunct2, rule_format, OF ok] .
qed

text \<open>
  C10 as stated fails when lines without a tag precede the final tag line and no non-empty
  tag was current: the buffer is not empty at the end of the file, nothing raises, and a
  table is written under the final tag.
\<close>

theorem trailing_tag_after_untagged_lines:
  "segment read_csv (file_lines (''a'' @ [TAB] @ ''b'' @ [NL] @ ''[X]'' @ [NL]))
     = Inr [(Some ''X'', \<lparr>columns = [''a'', ''b''], rows = []\<rparr>)]
   \<and> fst (process_text_file read_csv ''GSE68849'' ''extracted/GSE68849/s/s.txt'' ''s.txt'' ''s''
            (single_file ''extracted/GSE68849/s/s.txt''
               (''a'' @ [TAB] @ ''b'' @ [NL] @ ''[X]'' @ [NL]))) = Inr ()
   \<and> snd (process_text_file read_csv ''GSE68849'' ''extracted/GSE68849/s/s.txt'' ''s.txt'' ''s''
            (single_file ''extracted/GSE68849/s/s.txt''
               (''a'' @ [TAB] @ ''b'' @ [NL] @ ''[X]'' @ [NL])))
        ''processed/GSE68849/s/s_X.tsv'' = Some (File (''a'' @ [TAB] @ ''b'' @ [NL]))"
  by code_simp

text \<open>
  C2 (amended). For the synthetic input file of the spec, the Segmenter parses exactly two
  tables keyed \<open>Header\<close> and \<open>Probes\<close> and writes both; the reduction step then raises,
  because five of the seven columns it removes are absent, and no \<open>Probes_reduced\<close>
  table is written. When the \<open>Probes\<close> section carries all seven columns, the
  \<open>Probes_reduced\<close> table is written without them and with the \<open>ID\<close> column.
\<close>

theorem synthetic_segmentation:
  "segment read_csv (file_lines synthetic) =
     Inr [(Some ''Header'', \<lparr>columns = [''a'', ''b''], rows = [[''1'', ''2'']]\<rparr>),
          (Some ''Probes'', \<lparr>columns = [''ID'', ''Definition'', ''Probe_Sequence''],
                              rows = [[''1'', ''foo'', ''ACGT'']]\<rparr>)]
   \<and> fst (process_text_file read_csv ''GSE68849'' ''extracted/GSE68849/GPL/GPL.txt'' ''GPL.txt''
            ''GPL'' (single_file ''extracted/GSE68849/GPL/GPL.txt'' synthetic))
       = Inl (KeyError [''Ontology_Component'', ''Ontology_Process'', ''Ontology_Function'',
                        ''Synonyms'', ''Obsolete_Probe_Id''])
   \<and> snd (process_text_file read_csv ''GSE68849'' ''extracted/GSE68849/GPL/GPL.txt'' ''GPL.txt''
            ''GPL'' (single_file ''extracted/GSE68849/GPL/GPL.txt'' synthetic))
        ''processed/GSE68849/GPL/GPL_Header.tsv''
       = Some (File (''a'' @ [TAB] @ ''b'' @ [NL] @ ''1'' @ [TAB] @ ''2'' @ [NL]))
   \<and> snd (process_text_file read_csv ''GSE68849'' ''extracted/GSE68849/GPL/GPL.txt'' ''GPL.txt''
            ''GPL'' (single_file ''extracted/GSE68849/GPL/GPL.txt'' synthetic))
        ''processed/GSE68849/GPL/GPL_Probes.tsv''
       = Some (File (''ID'' @ [TAB] @ ''Definition'' @ [TAB] @ ''Probe_Sequence'' @ [NL]
                     @ ''1'' @ [TAB] @ ''foo'' @ [TAB] @ ''ACGT'' @ [NL]))
   \<and> snd (process_text_file read_csv ''GSE68849'' ''extracted/GSE68849/GPL/GPL.txt'' ''GPL.txt''
            ''GPL'' (single_file ''extracted/GSE68849/GPL/GPL.txt'' synthetic))
        ''processed/GSE68849/GPL/Probes_reduced.tsv'' = None
   \<and> fst (process_text_file read_csv ''GSE68849'' ''extracted/GSE68849/GPL/GPL.txt'' ''GPL.txt''
            ''GPL'' (single_file ''extracted/GSE68849/GPL/GPL.txt'' synthetic_full)) = Inr ()
   \<and> snd (process_text_file read_csv ''GSE68849'' ''extracted/GSE68849/GPL/GPL.txt'' ''GPL.txt''
            ''GPL'' (single_file ''extracted/GSE68849/GPL/GPL.txt'' synthetic_full))
        ''processed/GSE68849/GPL/Probes_reduced.tsv''
       = Some (File (''ID'' @ [NL] @ ''1'' @ [NL]))"
  by code_simp

theorem synthetic_segmentation_witness:
  "segment read_csv (file_lines synthetic) =
     Inr [(Some ''Header'', \<lparr>columns = [''a'', ''b''], rows = [[''1'', ''2'']]\<rparr>),
          (Some ''Probes'', \<lparr>columns = [''ID'', ''Definition'', ''Probe_Sequence''],
                              rows = [[''1'', ''foo'', ''ACGT'']]\<rparr>)]"
  using synthetic_segmentation by (rule conjunct1)

text \<open>
  C2 as stated fails: on the synthetic input the reduction step raises and no
  \<open>Probes_reduced\<close> table exists afterwards.
\<close>

theorem synthetic_reduction_raises:
  "fst (process_text_file read_csv ''GSE68849'' ''extracted/GSE68849/GPL/GPL.txt'' ''GPL.txt''
          ''GPL'' (single_file ''extracted/GSE68849/GPL/GPL.txt'' synthetic))
     = Inl (KeyError [''Ontology_Component'', ''Ontology_Process'', ''Ontology_Function'',
                      ''Synonyms'', ''Obsolete_Probe_Id''])
   \<and> snd (process_text_file read_csv ''GSE68849'' ''extracted/GSE68849/GPL/GPL.txt'' ''GPL.txt''
            ''GPL'' (single_file ''extracted/GSE68849/GPL/GPL.txt'' synthetic))
        ''processed/GSE68849/GPL/Probes_reduced.tsv'' = None
   \<and> drop_columns \<lparr>columns = [''ID'', ''Definition'', ''Probe_Sequence''],
                    rows = [[''1'', ''foo'', ''ACGT'']]\<rparr> probes_dropped
     = Inl (KeyError [''Ontology_Component'', ''Ontology_Process'', ''Ontology_Function'',
                      ''Synonyms'', ''Obsolete_Probe_Id''])"
  by code_simp

section \<open>The Unpacker\<close>

lemma remove_not_file: "remove p fs = (r, fs') \<Longrightarrow> \<not> is_file (fs' p)"
  by (auto simp: remove_def split: option.splits node.splits)

lemma remove_gone: "remove p fs = (r, fs') \<Longrightarrow> fs p \<noteq> Some Dir \<Longrightarrow> fs' p = None"
  by (auto simp: remove_def split: option.splits node.splits)

lemma remove_file: "fs p = Some (File c) \<Longrightarrow> remove p fs = (Inr (), fs(p := None))"
  by (simp add: remove_def)

text \<open>
  C6. After the extraction step of the Unpacker ends, whether the archive reader returned
  the member names or raised, no archive file is left at the declared output path of the
  Acquirer: the removal in the \<open>finally\<close> block runs in both cases. Nothing at all is
  left at that path unless a directory sits there, and an error of the archive reader
  leaves the step with an error.
\<close>

theorem archive_removed_after_extraction:
  assumes "extraction_step untar (stage_output DownloadData dataset_name) extract_path fs = (r, fs')"
  shows "\<not> is_file (fs' (stage_output DownloadData dataset_name))
         \<and> (snd (untar (stage_output DownloadData dataset_name) extract_path fs)
                (stage_output DownloadData dataset_name) \<noteq> Some Dir
              \<longrightarrow> fs' (stage_output DownloadData dataset_name) = None)
         \<and> ((\<exists>e. fst (untar (stage_output DownloadData dataset_name) extract_path fs) = Inl e)
              \<longrightarrow> (\<exists>e. r = Inl e))
         \<and> (is_file (snd (untar (stage_output DownloadData dataset_name) extract_path fs)
                       (stage_output DownloadData dataset_name))
              \<longrightarrow> r = fst (untar (stage_output DownloadData dataset_name) extract_path fs)
                  \<and> fs' = (snd (untar (stage_output DownloadData dataset_name) extract_path fs))
                           (stage_output DownloadData dataset_name := None))"
proof -
  let ?p = "stage_output DownloadData dataset_name"
  obtain r1 fs1 where u: "untar ?p extract_path fs = (r1, fs1)"
    by (cases "untar ?p extract_path fs")
  obtain r2 fs2 where rm: "remove ?p fs1 = (r2, fs2)"
    by (cases "remove ?p fs1")
  have res: "fs' = fs2" "r = (case r2 of Inl e2 \<Rightarrow> Inl e2 | Inr u \<Rightarrow> r1)"
    using assms u rm by (auto simp: extraction_step_def split: sum.splits)
  have a: "\<not> is_file (fs' ?p)"
    using remove_not_file [OF rm] res(1) by simp
  have b: "snd (untar ?p extract_path fs) ?p \<noteq> Some Dir \<longrightarrow> fs' ?p = None"
    using remove_gone [OF rm] res(1) u by simp
  have c: "(\<exists>e. fst (untar ?p extract_path fs) = Inl e) \<longrightarrow> (\<exists>e. r = Inl e)"
    using res(2) u by (auto split: sum.splits)
  have d: "is_file (snd (untar ?p extract_path fs) ?p)
              \<longrightarrow> r = fst (untar ?p extract_path fs)
                  \<and> fs' = (snd (untar ?p extract_path fs))(?p := None)"
  proof
    assume "is_file (snd (untar ?p extract_path fs) ?p)"
    then obtain c where "fs1 ?p = Some (File c)"
      using u by (cases "fs1 ?p" rule: is_file.cases) auto
    then have "remove ?p fs1 = (Inr (), fs1(?p := None))" by (rule remove_file)
    with rm have "r2 = Inr ()" "fs2 = fs1(?p := None)" by simp_all
    then show "r = fst (untar ?p extract_path fs)
                  \<and> fs' = (snd (untar ?p extract_path fs))(?p := None)"
      using res u by simp
  qed
  from a b c d show ?thesis by blast
qed

theorem archive_removed_after_extraction_witness:
  "snd (extraction_step (\<lambda>tar_path extract_path fs. (Inl (OtherError ''ReadError''), fs))
          (stage_output DownloadData ''GSE68849'') ''extracted/GSE68849''
          (single_file ''data/GSE68849_RAW.tar'' ''truncated''))
       (stage_output DownloadData ''GSE68849'') = None
   \<and> snd (extraction_step (\<lambda>tar_path extract_path fs. (Inr [''GSM1.txt.gz''], fs))
          (stage_output DownloadData ''GSE68849'') ''extracted/GSE68849''
          (single_file ''data/GSE68849_RAW.tar'' ''archive''))
       (stage_output DownloadData ''GSE68849'') = None"
proof -
  let ?bad = "\<lambda>(tar_path :: string) (extract_path :: string) (fs :: fs).
                (Inl (OtherError ''ReadError'') :: error + string list, fs)"
  let ?good = "\<lambda>(tar_path :: string) (extract_path :: string) (fs :: fs).
                (Inr [''GSM1.txt.gz''] :: error + string list, fs)"
  let ?p = "stage_output DownloadData ''GSE68849''"
  let ?e = "''extracted/GSE68849''"
  let ?f1 = "single_file ''data/GSE68849_RAW.tar'' ''truncated''"
  let ?f2 = "single_file ''data/GSE68849_RAW.tar'' ''archive''"
  have p: "?p = ''data/GSE68849_RAW.tar''" by code_simp
  have e1: "extraction_step ?bad ?p ?e ?f1
              = (fst (extraction_step ?bad ?p ?e ?f1), snd (extraction_step ?bad ?p ?e ?f1))"
    by simp
  have e2: "extraction_step ?good ?p ?e ?f2
              = (fst (extraction_step ?good ?p ?e ?f2), snd (extraction_step ?good ?p ?e ?f2))"
    by simp
  have n1: "snd (?bad ?p ?e ?f1) ?p \<noteq> Some Dir" by (simp add: p single_file_def)
  have n2: "snd (?good ?p ?e ?f2) ?p \<noteq> Some Dir" by (simp add: p single_file_def)
  have a: "snd (extraction_step ?bad ?p ?e ?f1) ?p = None"
    using archive_removed_after_extraction [OF e1] n1 by blast
  have b: "snd (extraction_step ?good ?p ?e ?f2) ?p = None"
    using archive_removed_after_extraction [OF e2] n2 by blast
  from a b show ?thesis by blast
qed


















section \<open>The engine\<close>








end
